theory Spec2Isabelle
  imports Main
begin

section \<open>The key value store with nested transactions (storage/storage.go)\<close>

subsection \<open>Commands and errors\<close>

definition Write :: string where "Write = ''write''"
definition Read :: string where "Read = ''read''"
definition Remove :: string where "Remove = ''remove''"
definition Begin :: string where "Begin = ''begin''"
definition Commit :: string where "Commit = ''commit''"
definition Discard :: string where "Discard = ''discard''"

text \<open>
  The three error values of the package. \<open>ErrKeyNotFound\<close> and \<open>ErrUnsupportedCommand\<close>
  are wrapped together with the offending key or command name (\<open>fmt.Errorf("%w: %s", ...)\<close>).
\<close>

datatype error =
    ErrNoCurrentTransation
  | ErrKeyNotFound string
  | ErrUnsupportedCommand string

subsection \<open>Operations, transactions and the store\<close>

text \<open>
  \<open>type operation struct { key string; value string; isWrite bool }\<close>.
  The field \<open>value\<close> is called \<open>op_value\<close> here.
\<close>

record operation =
  key :: string
  op_value :: string
  isWrite :: bool

text \<open>
  \<open>type tx struct { parent *tx; operations []operation }\<close>. The nil parent is \<open>None\<close>.
  Every transaction is referenced by the store or by its single live child only, so the
  chain of frames is a value.
\<close>

datatype tx = Tx (parent: "tx option") (operations: "operation list")

definition isRoot :: "tx \<Rightarrow> bool" where
  "isRoot t = (if parent t = None then True else False)"

definition hasOperations :: "tx \<Rightarrow> bool" where
  "hasOperations t = (if length (operations t) > 0 then True else False)"

type_synonym kvStore = "string \<rightharpoonup> string"

text \<open>\<open>func (kv kvStore) modify(op operation)\<close>\<close>

definition kv_modify :: "kvStore \<Rightarrow> operation \<Rightarrow> kvStore" where
  "kv_modify m op = (if isWrite op then m(key op \<mapsto> op_value op) else m(key op := None))"

record Store =
  kv :: kvStore
  currTx :: tx

text \<open>\<open>func NewStore() *Store\<close>\<close>

definition NewStore :: Store where
  "NewStore = \<lparr>kv = Map.empty, currTx = Tx None []\<rparr>"

text \<open>
  \<open>func (s *Store) modify(op operation)\<close>: at the root the operation goes to the kvStore,
  otherwise it is appended to the operations of the current transaction.
\<close>

definition modify :: "Store \<Rightarrow> operation \<Rightarrow> Store" where
  "modify s op =
     (if isRoot (currTx s) then s\<lparr>kv := kv_modify (kv s) op\<rparr>
      else s\<lparr>currTx := Tx (parent (currTx s)) (operations (currTx s) @ [op])\<rparr>)"

text \<open>\<open>func (s *Store) write(key, value string)\<close>\<close>

definition write_val :: "Store \<Rightarrow> string \<Rightarrow> string \<Rightarrow> Store" where
  "write_val s k v = modify s \<lparr>key = k, op_value = v, isWrite = True\<rparr>"

text \<open>
  The inner loop of \<open>read\<close>:
  \<^verbatim>\<open>for i := len(s.currTx.operations) - 1; i >= 0; i-- { ... }\<close>
  The counter \<open>n\<close> is \<open>i + 1\<close>; the loop starts at \<open>n = len(ops)\<close>, so every index read
  is in range. \<open>None\<close> means that the loop ended without a return.
\<close>

fun scan_operations :: "operation list \<Rightarrow> string \<Rightarrow> nat \<Rightarrow> (error + string) option" where
  "scan_operations ops k 0 = None"
| "scan_operations ops k (Suc i) =
     (if k = key (ops ! i) then
        (if False = isWrite (ops ! i) then Some (Inl (ErrKeyNotFound k))
         else Some (Inr (op_value (ops ! i))))
      else scan_operations ops k i)"

text \<open>
  The outer loop of \<open>read\<close>:
  \<^verbatim>\<open>currentTx := s.currTx
  for !currentTx.isRoot() { <scan s.currTx.operations>; currentTx = currentTx.parent }\<close>
  followed by the lookup in the kvStore. The third argument is the loop variable
  \<open>currentTx\<close>; the log scanned in the body is the one of \<open>s.currTx\<close>, as in the source.
\<close>

fun read_loop :: "Store \<Rightarrow> string \<Rightarrow> tx \<Rightarrow> error + string" where
  "read_loop s k (Tx None ops) =
     (case kv s k of Some v \<Rightarrow> Inr v | None \<Rightarrow> Inl (ErrKeyNotFound k))"
| "read_loop s k (Tx (Some p) ops) =
     (case scan_operations (operations (currTx s)) k (length (operations (currTx s))) of
        Some r \<Rightarrow> r
      | None \<Rightarrow> read_loop s k p)"

text \<open>\<open>func (s *Store) read(key string) (string, error)\<close>\<close>

definition read :: "Store \<Rightarrow> string \<Rightarrow> error + string" where
  "read s k = read_loop s k (currTx s)"

text \<open>
  \<open>func (s *Store) remove(key string) error\<close>. The result is the returned error
  (\<open>None\<close> for nil) and the store after the call.
\<close>

definition remove :: "Store \<Rightarrow> string \<Rightarrow> error option \<times> Store" where
  "remove s k =
     (case read s k of
        Inl err \<Rightarrow> (Some (ErrKeyNotFound k), s)
      | Inr v \<Rightarrow> (None, modify s \<lparr>key = k, op_value = [], isWrite = False\<rparr>))"

text \<open>
  Step 1 of \<open>commit\<close>: every operation of the current transaction is copied and appended
  to the operations of the parent. The first argument is \<open>s.currTx.parent.operations\<close>.
\<close>

fun append_to_parent :: "operation list \<Rightarrow> operation list \<Rightarrow> operation list" where
  "append_to_parent pops [] = pops"
| "append_to_parent pops (op # rest) =
     append_to_parent (pops @ [\<lparr>key = key op, op_value = op_value op, isWrite = isWrite op\<rparr>]) rest"

text \<open>Step 3 of \<open>commit\<close>: \<open>for _, op := range s.currTx.operations { s.kv.modify(op) }\<close>\<close>

fun apply_operations :: "kvStore \<Rightarrow> operation list \<Rightarrow> kvStore" where
  "apply_operations m [] = m"
| "apply_operations m (op # rest) = apply_operations (kv_modify m op) rest"

text \<open>
  \<open>func (s *Store) commit() error\<close>. The test \<open>s.currTx.isRoot()\<close> is the case
  distinction on the parent pointer.
\<close>

definition commit :: "Store \<Rightarrow> error option \<times> Store" where
  "commit s =
     (case parent (currTx s) of
        None \<Rightarrow> (Some ErrNoCurrentTransation, s)
      | Some p \<Rightarrow>
          (let p' = Tx (parent p) (append_to_parent (operations p) (operations (currTx s)));
               s' = s\<lparr>currTx := p'\<rparr>
           in if isRoot (currTx s') \<and> hasOperations (currTx s')
              then (None, s'\<lparr>kv := apply_operations (kv s') (operations (currTx s')),
                             currTx := Tx (parent (currTx s')) []\<rparr>)
              else (None, s')))"

text \<open>\<open>func (s *Store) discard()\<close>\<close>

definition discard :: "Store \<Rightarrow> Store" where
  "discard s = (case parent (currTx s) of None \<Rightarrow> s | Some p \<Rightarrow> s\<lparr>currTx := p\<rparr>)"

text \<open>\<open>func (s *Store) begin()\<close>\<close>

definition begin_tx :: "Store \<Rightarrow> Store" where
  "begin_tx s = s\<lparr>currTx := Tx (Some (currTx s)) []\<rparr>"

text \<open>
  \<open>func (s *Store) Process(command, key, value string) (string, error)\<close>, with the store
  after the call as second component.
\<close>

definition Process :: "string \<Rightarrow> string \<Rightarrow> string \<Rightarrow> Store \<Rightarrow> (error + string) \<times> Store" where
  "Process command k v s =
     (if command = Write then (Inr [], write_val s k v)
      else if command = Read then (read s k, s)
      else if command = Remove then
        (case remove s k of (None, s') \<Rightarrow> (Inr [], s') | (Some e, s') \<Rightarrow> (Inl e, s'))
      else if command = Begin then (Inr [], begin_tx s)
      else if command = Discard then (Inr [], discard s)
      else if command = Commit then
        (case commit s of (None, s') \<Rightarrow> (Inr [], s') | (Some e, s') \<Rightarrow> (Inl e, s'))
      else (Inl (ErrUnsupportedCommand command), s))"

text \<open>A session: the calls of \<open>Process\<close> made one after the other on a store.\<close>

fun run :: "(string \<times> string \<times> string) list \<Rightarrow> Store \<Rightarrow> Store" where
  "run [] s = s"
| "run ((c, k, v) # rest) s = run rest (snd (Process c k v s))"

text \<open>The operations of the root transaction at the end of the parent chain.\<close>

fun root_operations :: "tx \<Rightarrow> operation list" where
  "root_operations (Tx None ops) = ops"
| "root_operations (Tx (Some p) ops) = root_operations p"

text \<open>The number of open transactions.\<close>

fun depth :: "tx \<Rightarrow> nat" where
  "depth (Tx None ops) = 0"
| "depth (Tx (Some p) ops) = Suc (depth p)"

subsection \<open>The read resolution of the specification\<close>

text \<open>
  The specification words the resolution as follows: walk from the current frame along
  the parent links, stopping before the base frame; scan the log of each visited frame,
  most recent entry first; the first entry for the key decides (a write gives its value,
  a tombstone gives not found); without any match, look the key up in the durable map.
  \<open>read_spec\<close> follows these words; \<open>read\<close> above follows the source.
\<close>

fun read_spec_walk :: "kvStore \<Rightarrow> string \<Rightarrow> tx \<Rightarrow> error + string" where
  "read_spec_walk m k (Tx None ops) =
     (case m k of Some v \<Rightarrow> Inr v | None \<Rightarrow> Inl (ErrKeyNotFound k))"
| "read_spec_walk m k (Tx (Some p) ops) =
     (case find (\<lambda>op. key op = k) (rev ops) of
        Some op \<Rightarrow> if isWrite op then Inr (op_value op) else Inl (ErrKeyNotFound k)
      | None \<Rightarrow> read_spec_walk m k p)"

definition read_spec :: "Store \<Rightarrow> string \<Rightarrow> error + string" where
  "read_spec s k = read_spec_walk (kv s) k (currTx s)"

subsection \<open>Two example sessions\<close>

text \<open>One open transaction holding one write.\<close>

definition s_pending :: Store where
  "s_pending = run [(Begin, [], []), (Write, ''a'', ''1'')] NewStore"

text \<open>Two open transactions, each holding one write.\<close>

definition s_nested :: Store where
  "s_nested =
     run [(Begin, [], []), (Write, ''b'', ''2''), (Begin, [], []), (Write, ''a'', ''1'')] NewStore"

section \<open>Basic facts\<close>

lemmas commands = Write_def Read_def Remove_def Begin_def Commit_def Discard_def

lemma isRoot_iff: "isRoot t \<longleftrightarrow> parent t = None"
  by (simp add: isRoot_def)

lemma hasOperations_iff: "hasOperations t \<longleftrightarrow> operations t \<noteq> []"
  by (simp add: hasOperations_def)

lemma s_pending_eq:
  "s_pending = \<lparr>kv = Map.empty,
     currTx = Tx (Some (Tx None [])) [\<lparr>key = ''a'', op_value = ''1'', isWrite = True\<rparr>]\<rparr>"
  by (simp add: s_pending_def commands Process_def NewStore_def begin_tx_def write_val_def
      modify_def isRoot_def)

lemma s_nested_eq:
  "s_nested = \<lparr>kv = Map.empty,
     currTx = Tx (Some (Tx (Some (Tx None [])) [\<lparr>key = ''b'', op_value = ''2'', isWrite = True\<rparr>]))
                 [\<lparr>key = ''a'', op_value = ''1'', isWrite = True\<rparr>]\<rparr>"
  by (simp add: s_nested_def commands Process_def NewStore_def begin_tx_def write_val_def
      modify_def isRoot_def)

text \<open>The store that \<open>Process\<close> leaves behind, command by command.\<close>

lemma snd_Process:
  "snd (Process c k v s) =
     (if c = Write then write_val s k v
      else if c = Read then s
      else if c = Remove then snd (remove s k)
      else if c = Begin then begin_tx s
      else if c = Discard then discard s
      else if c = Commit then snd (commit s)
      else s)"
  by (simp add: Process_def split: prod.split option.split)

subsection \<open>The loops of commit\<close>

lemma append_to_parent_append: "append_to_parent pops ops = pops @ ops"
  by (induction ops arbitrary: pops) simp_all

lemma apply_operations_foldl: "apply_operations m ops = foldl kv_modify m ops"
  by (induction ops arbitrary: m) simp_all

lemma apply_operations_snoc:
  "apply_operations m (ops @ [op]) = kv_modify (apply_operations m ops) op"
  by (induction ops arbitrary: m) simp_all

text \<open>After the replay of a log, the most recent operation on a key decides its entry.\<close>

lemma apply_operations_last_wins:
  "apply_operations m ops k =
     (case find (\<lambda>op. key op = k) (rev ops) of
        None \<Rightarrow> m k
      | Some op \<Rightarrow> if isWrite op then Some (op_value op) else None)"
proof (induction ops rule: rev_induct)
  case Nil
  show ?case by simp
next
  case (snoc op ops)
  show ?case
    by (simp add: apply_operations_snoc kv_modify_def snoc.IH)
qed

subsection \<open>The loops of read\<close>

text \<open>The backwards scan finds the most recent entry for the key among the first \<open>n\<close>.\<close>

lemma scan_operations_find:
  "n \<le> length ops \<Longrightarrow>
   scan_operations ops k n =
     (case find (\<lambda>op. key op = k) (rev (take n ops)) of
        None \<Rightarrow> None
      | Some op \<Rightarrow> Some (if isWrite op then Inr (op_value op) else Inl (ErrKeyNotFound k)))"
proof (induction n)
  case 0
  show ?case by simp
next
  case (Suc n)
  then have "take (Suc n) ops = take n ops @ [ops ! n]"
    by (simp add: take_Suc_conv_app_nth)
  with Suc show ?case by auto
qed

text \<open>
  Every round of the outer loop scans the same log, the one of \<open>s.currTx\<close>. When that log
  has no entry for the key, the loop runs down to the root and the kvStore decides.
\<close>

lemma read_loop_no_match:
  "scan_operations (operations (currTx s)) k (length (operations (currTx s))) = None \<Longrightarrow>
   read_loop s k t = (case kv s k of Some v \<Rightarrow> Inr v | None \<Rightarrow> Inl (ErrKeyNotFound k))"
  by (induction s k t rule: read_loop.induct) simp_all

text \<open>
  What \<open>read\<close> computes: inside a transaction, the most recent entry for the key in the
  log of the current transaction, and otherwise the entry of the kvStore.
\<close>

lemma read_current_only:
  "read s k =
     (case (if isRoot (currTx s) then None
            else find (\<lambda>op. key op = k) (rev (operations (currTx s)))) of
        Some op \<Rightarrow> if isWrite op then Inr (op_value op) else Inl (ErrKeyNotFound k)
      | None \<Rightarrow> (case kv s k of Some v \<Rightarrow> Inr v | None \<Rightarrow> Inl (ErrKeyNotFound k)))"
proof (cases "currTx s")
  case (Tx par ops)
  show ?thesis
  proof (cases par)
    case None
    with Tx show ?thesis by (simp add: read_def isRoot_def)
  next
    case (Some p)
    show ?thesis
    proof (cases "find (\<lambda>op. key op = k) (rev ops)")
      case None
      with Tx Some show ?thesis
        by (simp add: read_def isRoot_def read_loop_no_match scan_operations_find)
    next
      case (Some op)
      with Tx \<open>par = Some p\<close> show ?thesis
        by (simp add: read_def isRoot_def scan_operations_find)
    qed
  qed
qed

subsection \<open>remove and read\<close>

text \<open>
  \<open>remove\<close> fails exactly when \<open>read\<close> fails, and then leaves the store as it was;
  otherwise it hands a tombstone to \<open>modify\<close>.
\<close>

lemma remove_fails_iff_read_fails:
  "(fst (remove s k) = Some (ErrKeyNotFound k) \<longleftrightarrow> (\<exists>e. read s k = Inl e)) \<and>
   ((\<exists>e. read s k = Inl e) \<longrightarrow> snd (remove s k) = s) \<and>
   ((\<exists>v. read s k = Inr v) \<longrightarrow>
      remove s k = (None, modify s \<lparr>key = k, op_value = [], isWrite = False\<rparr>))"
  by (auto simp: remove_def split: sum.splits)

subsection \<open>The operations of the root transaction\<close>

lemma root_operations_modify:
  "root_operations (currTx (modify s op)) = root_operations (currTx s)"
  by (cases "currTx s" rule: root_operations.cases) (simp_all add: modify_def isRoot_def)

lemma root_operations_commit:
  assumes "root_operations (currTx s) = []"
  shows "root_operations (currTx (snd (commit s))) = []"
proof (cases "currTx s" rule: root_operations.cases)
  case (1 ops)
  with assms show ?thesis by (simp add: commit_def)
next
  case (2 p ops)
  show ?thesis
  proof (cases p rule: root_operations.cases)
    case (1 pops)
    with 2 assms show ?thesis
      by (simp add: commit_def Let_def isRoot_def hasOperations_def append_to_parent_append)
  next
    case (2 q pops)
    with \<open>currTx s = Tx (Some p) ops\<close> assms show ?thesis
      by (simp add: commit_def Let_def isRoot_def hasOperations_def append_to_parent_append)
  qed
qed

lemma root_operations_discard:
  "root_operations (currTx (discard s)) = root_operations (currTx s)"
  by (cases "currTx s" rule: root_operations.cases) (simp_all add: discard_def)

lemma root_operations_begin:
  "root_operations (currTx (begin_tx s)) = root_operations (currTx s)"
  by (simp add: begin_tx_def)

lemma root_operations_Process:
  assumes "root_operations (currTx s) = []"
  shows "root_operations (currTx (snd (Process c k v s))) = []"
proof -
  have rm: "root_operations (currTx (snd (remove s k))) = []"
    using assms by (simp add: remove_def root_operations_modify split: sum.split)
  have cm: "root_operations (currTx (snd (commit s))) = []"
    using assms by (rule root_operations_commit)
  show ?thesis
    using assms rm cm
    by (simp add: snd_Process write_val_def root_operations_modify root_operations_discard
        root_operations_begin)
qed

lemma root_operations_run:
  "root_operations (currTx s) = [] \<Longrightarrow> root_operations (currTx (run cmds s)) = []"
  by (induction cmds s rule: run.induct) (simp_all add: root_operations_Process)

lemma depth_zero_iff: "depth t = 0 \<longleftrightarrow> parent t = None"
  by (cases t rule: depth.cases) simp_all

section \<open>The properties of the specification\<close>

subsection \<open>Read resolution\<close>

text \<open>
  C1. The specification lets \<open>read\<close> scan, at every frame visited on the way to the base
  frame, the log of that frame, so that a read sees the uncommitted edits of the ancestors
  of the current frame. The source scans \<open>s.currTx.operations\<close> in every round instead of
  \<open>currentTx.operations\<close>. After \<open>begin; write a 1; begin\<close> the write sits in the log of
  the parent of the current frame: the resolution of the specification returns \<open>1\<close>, the
  source returns the error \<open>ErrKeyNotFound\<close>.
\<close>

theorem read_misses_parent_write:
  "read (run [(Begin, [], []), (Write, ''a'', ''1''), (Begin, [], [])] NewStore) ''a''
     = Inl (ErrKeyNotFound ''a'') \<and>
   read_spec (run [(Begin, [], []), (Write, ''a'', ''1''), (Begin, [], [])] NewStore) ''a''
     = Inr ''1''"
  by (simp add: commands Process_def NewStore_def begin_tx_def write_val_def modify_def
      isRoot_def read_def read_spec_def)

subsection \<open>Commit\<close>

text \<open>
  C2. With at least one open transaction, \<open>commit\<close> returns no error. The log of the
  current frame is appended, in its order, behind the log of the parent \<open>p\<close>. When the
  parent is the base frame and the joined log is not empty, every operation of the joined
  log is applied to the durable map in chronological order (a write sets, a tombstone
  deletes, so the most recent operation on a key decides its entry), and the base frame,
  with an empty log, is the current frame. Otherwise the durable map stays as it is and
  the parent, holding the joined log, is the current frame.
\<close>

theorem commit_protocol:
  fixes s :: Store
  assumes "parent (currTx s) = Some p"
  shows "fst (commit s) = None \<and>
    (if parent p = None \<and> operations p @ operations (currTx s) \<noteq> []
     then currTx (snd (commit s)) = Tx None [] \<and>
          kv (snd (commit s)) = foldl kv_modify (kv s) (operations p @ operations (currTx s)) \<and>
          (\<forall>k. kv (snd (commit s)) k =
             (case find (\<lambda>op. key op = k) (rev (operations p @ operations (currTx s))) of
                None \<Rightarrow> kv s k
              | Some op \<Rightarrow> if isWrite op then Some (op_value op) else None))
     else snd (commit s) =
            s\<lparr>currTx := Tx (parent p) (operations p @ operations (currTx s))\<rparr>)"
proof -
  let ?log = "operations p @ operations (currTx s)"
  have last_wins: "\<And>k. foldl kv_modify (kv s) ?log k =
      (case find (\<lambda>op. key op = k) (rev ?log) of
         None \<Rightarrow> kv s k
       | Some op \<Rightarrow> if isWrite op then Some (op_value op) else None)"
    using apply_operations_last_wins[of "kv s" ?log] by (simp only: apply_operations_foldl)
  show ?thesis
  proof (cases "parent p = None \<and> ?log \<noteq> []")
    case True
    then have "commit s = (None, s\<lparr>kv := foldl kv_modify (kv s) ?log, currTx := Tx None []\<rparr>)"
      using assms
      by (simp add: commit_def Let_def isRoot_def hasOperations_def append_to_parent_append
          apply_operations_foldl)
    with True last_wins show ?thesis by (simp del: rev_append foldl_append)
  next
    case False
    then have "commit s = (None, s\<lparr>currTx := Tx (parent p) ?log\<rparr>)"
      using assms
      by (auto simp: commit_def Let_def isRoot_def hasOperations_def append_to_parent_append)
    with False show ?thesis by auto
  qed
qed

theorem commit_protocol_witness:
  "parent (currTx s_pending) = Some (Tx None []) \<and>
   fst (commit s_pending) = None \<and>
   currTx (snd (commit s_pending)) = Tx None [] \<and>
   kv (snd (commit s_pending)) ''a'' = Some ''1'' \<and>
   parent (currTx s_nested) =
     Some (Tx (Some (Tx None [])) [\<lparr>key = ''b'', op_value = ''2'', isWrite = True\<rparr>]) \<and>
   snd (commit s_nested) =
     \<lparr>kv = Map.empty,
      currTx = Tx (Some (Tx None [])) [\<lparr>key = ''b'', op_value = ''2'', isWrite = True\<rparr>,
                                        \<lparr>key = ''a'', op_value = ''1'', isWrite = True\<rparr>]\<rparr>"
  using commit_protocol[of s_pending "Tx None []"]
    commit_protocol[of s_nested
      "Tx (Some (Tx None [])) [\<lparr>key = ''b'', op_value = ''2'', isWrite = True\<rparr>]"]
  by (simp add: s_pending_eq s_nested_eq kv_modify_def)

text \<open>
  C7. \<open>commit\<close> fails with \<open>ErrNoCurrentTransation\<close> exactly when no transaction is open;
  the store is then unchanged. With an open transaction it returns no error.
\<close>

theorem commit_error_condition:
  "(fst (commit s) = Some ErrNoCurrentTransation \<longleftrightarrow> depth (currTx s) = 0) \<and>
   (depth (currTx s) = 0 \<longrightarrow> snd (commit s) = s) \<and>
   (1 \<le> depth (currTx s) \<longrightarrow> fst (commit s) = None)"
proof (cases "parent (currTx s)")
  case None
  then have "depth (currTx s) = 0" by (simp add: depth_zero_iff)
  with None show ?thesis by (simp add: commit_def)
next
  case (Some p)
  then have "depth (currTx s) \<noteq> 0" by (simp add: depth_zero_iff)
  with Some show ?thesis by (simp add: commit_def Let_def)
qed

theorem commit_error_condition_witness:
  "depth (currTx NewStore) = 0 \<and> fst (commit NewStore) = Some ErrNoCurrentTransation \<and>
   snd (commit NewStore) = NewStore \<and>
   1 \<le> depth (currTx s_pending) \<and> fst (commit s_pending) = None"
  using commit_error_condition[of NewStore] commit_error_condition[of s_pending]
  by (simp add: NewStore_def s_pending_eq)

subsection \<open>Remove\<close>

text \<open>
  C3. The specification promises that the second of two removes of the same key fails
  with \<open>ErrKeyNotFound\<close>, also when a \<open>begin\<close> lies between the two. In the session
  \<open>write k A; begin; remove k; begin; remove k\<close> the first remove succeeds and leaves a
  tombstone in the log of the first transaction. The pre-check \<open>read\<close> of the second
  remove never scans that log (every round of its outer loop scans the log of the current
  frame, which is empty after the \<open>begin\<close>) and finds \<open>k\<close> in the durable map, so the
  second remove succeeds as well. The resolution of the specification reports \<open>k\<close> as not
  found at that point.
\<close>

theorem second_remove_after_begin_succeeds:
  "fst (Process Remove ''k'' []
         (run [(Write, ''k'', ''A''), (Begin, [], [])] NewStore)) = Inr [] \<and>
   fst (Process Remove ''k'' []
         (run [(Write, ''k'', ''A''), (Begin, [], []), (Remove, ''k'', []), (Begin, [], [])]
            NewStore)) = Inr [] \<and>
   read_spec (run [(Write, ''k'', ''A''), (Begin, [], []), (Remove, ''k'', []), (Begin, [], [])]
            NewStore) ''k'' = Inl (ErrKeyNotFound ''k'')"
  by (simp add: commands Process_def NewStore_def begin_tx_def write_val_def modify_def
      isRoot_def read_def read_spec_def remove_def kv_modify_def)

text \<open>
  C8. On a fresh store and for every key \<open>k\<close>: after \<open>write k A; begin\<close> the remove of
  \<open>k\<close> succeeds, a read of \<open>k\<close> then fails with \<open>ErrKeyNotFound\<close>, and after \<open>discard\<close>
  a read of \<open>k\<close> returns \<open>A\<close>.
\<close>

theorem tombstone_shadowing_discard:
  "fst (remove (begin_tx (write_val NewStore k ''A'')) k) = None \<and>
   read (snd (remove (begin_tx (write_val NewStore k ''A'')) k)) k = Inl (ErrKeyNotFound k) \<and>
   read (discard (snd (remove (begin_tx (write_val NewStore k ''A'')) k))) k = Inr ''A''"
  by (simp add: remove_def read_current_only begin_tx_def write_val_def modify_def isRoot_def
      NewStore_def discard_def kv_modify_def)

subsection \<open>The durable map and the base frame\<close>

text \<open>
  C4, as the specification states it: the durable map changes only in the flush step of a
  commit. A write on a fresh store, where no transaction is open, changes the map itself.
\<close>

theorem write_at_root_changes_kv:
  "kv NewStore ''k'' = None \<and>
   kv (snd (Process Write ''k'' ''v'' NewStore)) ''k'' = Some ''v'' \<and>
   Write \<noteq> Commit"
  by (simp add: Process_def commands write_val_def modify_def isRoot_def NewStore_def
      kv_modify_def)

text \<open>
  C4, amended. A call of \<open>Process\<close> changes the durable map only when it is a write or a
  remove issued while no transaction is open (the operation is applied to the map at
  once), or a commit whose parent frame is the base frame and whose joined log is not
  empty (the flush). Every other call leaves the durable map as it is.
\<close>

theorem kv_changes_only_at_root_or_flush:
  assumes "kv (snd (Process c k v s)) \<noteq> kv s"
  shows "((c = Write \<or> c = Remove) \<and> isRoot (currTx s)) \<or>
         (c = Commit \<and> (\<exists>p. parent (currTx s) = Some p \<and> isRoot p \<and>
                              operations p @ operations (currTx s) \<noteq> []))"
proof -
  have w: "\<not> isRoot (currTx s) \<Longrightarrow> kv (modify s op) = kv s" for op
    by (simp add: modify_def)
  have r: "\<not> isRoot (currTx s) \<Longrightarrow> kv (snd (remove s k)) = kv s"
    by (simp add: remove_def w split: sum.split)
  have c: "kv (snd (commit s)) \<noteq> kv s \<Longrightarrow>
           \<exists>p. parent (currTx s) = Some p \<and> isRoot p \<and> operations p @ operations (currTx s) \<noteq> []"
    by (auto simp: commit_def Let_def isRoot_def hasOperations_def append_to_parent_append
        split: option.splits if_splits)
  show ?thesis
    using assms w r c
    by (auto simp: snd_Process write_val_def begin_tx_def discard_def
        split: if_splits option.splits)
qed

theorem kv_changes_only_at_root_or_flush_witness:
  "kv (snd (Process Commit [] [] s_pending)) \<noteq> kv s_pending \<and>
   (((Commit = Write \<or> Commit = Remove) \<and> isRoot (currTx s_pending)) \<or>
    (Commit = Commit \<and> (\<exists>p. parent (currTx s_pending) = Some p \<and> isRoot p \<and>
                              operations p @ operations (currTx s_pending) \<noteq> [])))"
proof -
  have h: "kv (snd (Process Commit [] [] s_pending)) \<noteq> kv s_pending"
    by (simp add: Process_def commands commit_def s_pending_eq Let_def isRoot_def
        hasOperations_def kv_modify_def)
  show ?thesis
    using h kv_changes_only_at_root_or_flush[OF h] by simp
qed

text \<open>
  C5. After every sequence of calls of \<open>Process\<close> on a fresh store, the log of the base
  frame is empty.
\<close>

theorem base_frame_empty: "root_operations (currTx (run cmds NewStore)) = []"
  by (rule root_operations_run) (simp add: NewStore_def)

subsection \<open>Round trips and frame effects\<close>

text \<open>
  C6. In every store, with or without open transactions, a read of \<open>k\<close> right after the
  write of \<open>v\<close> to \<open>k\<close> returns \<open>v\<close>; the same holds for the two calls made through
  \<open>Process\<close>.
\<close>

theorem write_read_round_trip:
  "read (write_val s k v) k = Inr v \<and>
   fst (Process Read k v' (snd (Process Write k v s))) = Inr v"
  by (auto simp: Process_def commands read_current_only write_val_def modify_def isRoot_def
      kv_modify_def)

text \<open>
  C9. \<open>begin\<close> followed at once by \<open>discard\<close> gives back the store it started from:
  the durable map, the chain of frames and the current frame.
\<close>

theorem begin_discard_identity: "discard (begin_tx s) = s"
  by (simp add: discard_def begin_tx_def)

text \<open>
  C10. A read through \<open>Process\<close>, whether it returns a value or an error, leaves the
  whole store (durable map, every log, current frame) as it was.
\<close>

theorem read_leaves_store: "snd (Process Read k v s) = s"
  by (simp add: Process_def commands)

end

